theory Spec2Isabelle
  imports Main
begin

section \<open>Strings\<close>

text \<open>
  JavaScript strings are modelled as \<open>string\<close>. The three string tests the service
  worker uses are \<^verbatim>\<open>startsWith\<close>, \<^verbatim>\<open>includes\<close> and a regular expression
  \<^verbatim>\<open>/\.(css|js|...)$/i\<close>, which is a case-insensitive test on the end of the string.
\<close>

fun startsWith :: "string \<Rightarrow> string \<Rightarrow> bool" where
  "startsWith s [] = True"
| "startsWith [] (p # ps) = False"
| "startsWith (c # cs) (p # ps) = (c = p \<and> startsWith cs ps)"

fun str_includes :: "string \<Rightarrow> string \<Rightarrow> bool" where
  "str_includes [] sub = (sub = [])"
| "str_includes (c # cs) sub = (startsWith (c # cs) sub \<or> str_includes cs sub)"

definition endsWith :: "string \<Rightarrow> string \<Rightarrow> bool" where
  "endsWith s e = startsWith (rev s) (rev e)"

definition toLowerChar :: "char \<Rightarrow> char" where
  "toLowerChar c =
     (case map_of (zip ''ABCDEFGHIJKLMNOPQRSTUVWXYZ'' ''abcdefghijklmnopqrstuvwxyz'') c of
        Some l \<Rightarrow> l
      | None \<Rightarrow> c)"

definition toLowerCase :: "string \<Rightarrow> string" where
  "toLowerCase s = map toLowerChar s"

text \<open>
  The values of a header field: the field is split at its commas and each value is
  stripped of the white space around it.
\<close>

fun split_commas :: "string \<Rightarrow> string list" where
  "split_commas [] = [[]]"
| "split_commas (c # cs) =
     (if c = CHR '','' then [] # split_commas cs
      else (case split_commas cs of
              [] \<Rightarrow> [[c]]
            | f # fs \<Rightarrow> (c # f) # fs))"

definition is_http_whitespace :: "char \<Rightarrow> bool" where
  "is_http_whitespace c = (c = CHR '' '' \<or> c = CHR 0x09 \<or> c = CHR 0x0A \<or> c = CHR 0x0D)"

definition trim :: "string \<Rightarrow> string" where
  "trim s = rev (dropWhile is_http_whitespace (rev (dropWhile is_http_whitespace s)))"

definition field_values :: "string \<Rightarrow> string list" where
  "field_values v = map trim (split_commas v)"

section \<open>Requests, responses and the network\<close>

text \<open>
  A request carries its method, its URL, the two components of \<^verbatim>\<open>new URL(request.url)\<close>
  that the worker reads (\<^verbatim>\<open>hostname\<close> and \<^verbatim>\<open>pathname\<close>) and the value of
  \<^verbatim>\<open>request.headers.get('accept')\<close> (\<open>None\<close> for \<^verbatim>\<open>null\<close>).
  The key of a cached entry is the request's URL.
\<close>

record request =
  req_method :: string
  req_url :: string
  url_hostname :: string
  url_pathname :: string
  hdr_accept :: "string option"

record response =
  status :: nat
  body :: string
  headers :: "(string \<times> string) list"

text \<open>
  The headers of a response are a list of name and value, the names in lower case as
  the \<^verbatim>\<open>Headers\<close> object keeps them; \<^verbatim>\<open>headers.get(name)\<close> is the lookup in
  that list. \<^verbatim>\<open>response.ok\<close>: the status is in the range 200 to 299.
\<close>

definition ok :: "response \<Rightarrow> bool" where
  "ok r = (200 \<le> status r \<and> status r \<le> 299)"

text \<open>Whether a \<^verbatim>\<open>Vary\<close> header of the response has the value \<^verbatim>\<open>*\<close>.\<close>

definition vary_star :: "response \<Rightarrow> bool" where
  "vary_star r =
     list_ex (\<lambda>h. toLowerCase (fst h) = ''vary'' \<and> list_ex (\<lambda>v. v = ''*'') (field_values (snd h)))
       (headers r)"

text \<open>
  \<^verbatim>\<open>fetch\<close> either resolves with a response (of any status), rejects, or never
  settles. The network is a function from the requested URL to that outcome; every
  strategy fetches at most once, so the network is asked once for each run.
\<close>

datatype fetch_outcome = Resolves response | Rejects | Hangs

type_synonym network = "string \<Rightarrow> fetch_outcome"

text \<open>
  What the promise handed to \<^verbatim>\<open>event.respondWith\<close> settles to: a response, the value
  \<^verbatim>\<open>null\<close>, a rejection, or nothing at all.
\<close>

datatype settled = Responds response | ResolvesNull | Fails | Pending

text \<open>\<^verbatim>\<open>new Response('Offline', { status: 503 })\<close> and
  \<^verbatim>\<open>new Response('Not found in cache', { status: 404 })\<close>; a string body gets the
  text content type.\<close>

definition offline_response :: response where
  "offline_response =
     \<lparr>status = 503, body = ''Offline'',
      headers = [(''content-type'', ''text/plain;charset=UTF-8'')]\<rparr>"

definition not_found_response :: response where
  "not_found_response =
     \<lparr>status = 404, body = ''Not found in cache'',
      headers = [(''content-type'', ''text/plain;charset=UTF-8'')]\<rparr>"

section \<open>Cache storage\<close>

text \<open>
  A cache is the list of its entries in insertion order; the cache storage
  (\<^verbatim>\<open>caches\<close>) is the list of named caches in creation order. The order matters:
  \<^verbatim>\<open>caches.match\<close> searches the caches in creation order and returns the first hit.
  Storing an entry replaces the whole entry of its key (\<open>cache_store\<close>).

  \<^verbatim>\<open>cache.put(request, response)\<close> is the platform's. It stores the entry unless it
  refuses the pair, and it refuses a request whose method is not GET or whose URL is not
  an http or https URL, a response of status 206 and a response whose \<^verbatim>\<open>Vary\<close>
  header has the value \<^verbatim>\<open>*\<close>; its promise is then rejected and nothing is stored.
  The worker never awaits that promise, so a refused \<^verbatim>\<open>put\<close> changes neither the
  storage nor what the strategy returns.
\<close>

type_synonym cache = "(string \<times> response) list"

type_synonym cache_storage = "(string \<times> cache) list"

definition cache_match :: "cache \<Rightarrow> string \<Rightarrow> response option" where
  "cache_match c k = map_of c k"

definition cache_delete :: "cache \<Rightarrow> string \<Rightarrow> cache" where
  "cache_delete c k = filter (\<lambda>e. fst e \<noteq> k) c"

definition cache_store :: "cache \<Rightarrow> string \<Rightarrow> response \<Rightarrow> cache" where
  "cache_store c k r = cache_delete c k @ [(k, r)]"

definition put_accepted :: "request \<Rightarrow> response \<Rightarrow> bool" where
  "put_accepted request r =
     (req_method request = ''GET'' \<and>
      (startsWith (req_url request) ''http:'' \<or> startsWith (req_url request) ''https:'') \<and>
      status r \<noteq> 206 \<and>
      \<not> vary_star r)"

definition cache_put :: "cache \<Rightarrow> request \<Rightarrow> response \<Rightarrow> cache" where
  "cache_put c request r =
     (if put_accepted request r then cache_store c (req_url request) r else c)"

definition cache_keys :: "cache \<Rightarrow> string list" where
  "cache_keys c = map fst c"

definition caches_keys :: "cache_storage \<Rightarrow> string list" where
  "caches_keys st = map fst st"

definition caches_has :: "cache_storage \<Rightarrow> string \<Rightarrow> bool" where
  "caches_has st n = (map_of st n \<noteq> None)"

text \<open>\<^verbatim>\<open>caches.open(name)\<close> creates the cache when it does not exist.\<close>

definition caches_open :: "cache_storage \<Rightarrow> string \<Rightarrow> cache_storage" where
  "caches_open st n = (if caches_has st n then st else st @ [(n, [])])"

definition caches_delete :: "cache_storage \<Rightarrow> string \<Rightarrow> cache_storage" where
  "caches_delete st n = filter (\<lambda>e. fst e \<noteq> n) st"

fun caches_match :: "cache_storage \<Rightarrow> string \<Rightarrow> response option" where
  "caches_match [] k = None"
| "caches_match ((n, c) # st) k =
     (case cache_match c k of
        Some r \<Rightarrow> Some r
      | None \<Rightarrow> caches_match st k)"

text \<open>The contents behind the handle of the cache named \<open>n\<close>, and an operation
  through that handle.\<close>

definition the_cache :: "cache_storage \<Rightarrow> string \<Rightarrow> cache" where
  "the_cache st n = (case map_of st n of Some c \<Rightarrow> c | None \<Rightarrow> [])"

definition cache_op :: "string \<Rightarrow> (cache \<Rightarrow> cache) \<Rightarrow> cache_storage \<Rightarrow> cache_storage" where
  "cache_op n f st = map (\<lambda>e. if fst e = n then (fst e, f (snd e)) else e) st"

text \<open>The entry a namespace holds for a key (\<open>None\<close> when either is missing).\<close>

definition entry :: "cache_storage \<Rightarrow> string \<Rightarrow> string \<Rightarrow> response option" where
  "entry st n k = cache_match (the_cache st n) k"

section \<open>The service worker's constants\<close>

definition STATIC_CACHE :: string where
  "STATIC_CACHE = ''mcp-static-v1''"

definition DYNAMIC_CACHE :: string where
  "DYNAMIC_CACHE = ''mcp-dynamic-v1''"


section \<open>Choosing a strategy\<close>

datatype strategy = CacheFirst | NetworkFirst | CacheOnly | NetworkOnly | StaleWhileRevalidate

definition static_extensions :: "string list" where
  "static_extensions =
     [''css'', ''js'', ''png'', ''jpg'', ''jpeg'', ''gif'', ''svg'', ''woff'', ''woff2'', ''ttf'', ''eot'']"

text \<open>\<^verbatim>\<open>pathname.match(/\.(css|js|png|jpg|jpeg|gif|svg|woff|woff2|ttf|eot)$/i)\<close>\<close>

definition matches_static_extension :: "string \<Rightarrow> bool" where
  "matches_static_extension pathname =
     list_ex (\<lambda>ext. endsWith (toLowerCase pathname) (''.'' @ ext)) static_extensions"

definition getCacheStrategy :: "request \<Rightarrow> strategy" where
  "getCacheStrategy request =
     (let pathname = url_pathname request;
          hostname = url_hostname request
      in
        if str_includes hostname ''google-analytics.com'' \<or>
           str_includes hostname ''googletagmanager.com'' \<or>
           str_includes pathname ''/analytics/''
        then NetworkOnly
        else if str_includes pathname ''/api/'' \<or>
                str_includes pathname ''.json'' \<or>
                (case hdr_accept request of
                   None \<Rightarrow> False
                 | Some accept \<Rightarrow> str_includes accept ''application/json'')
        then NetworkFirst
        else if matches_static_extension pathname \<or>
                str_includes hostname ''fonts.googleapis.com'' \<or>
                str_includes hostname ''fonts.gstatic.com'' \<or>
                str_includes hostname ''cdnjs.cloudflare.com''
        then CacheFirst
        else StaleWhileRevalidate)"

section \<open>The five strategies\<close>

text \<open>
  Each strategy returns what its promise settles to, and the cache storage once every
  write it started has completed (a \<^verbatim>\<open>cache.put\<close> is started without being awaited).
\<close>

definition cacheFirst :: "network \<Rightarrow> cache_storage \<Rightarrow> request \<Rightarrow> settled \<times> cache_storage" where
  "cacheFirst net st request =
     (case caches_match st (req_url request) of
        Some cachedResponse \<Rightarrow> (Responds cachedResponse, st)
      | None \<Rightarrow>
          (case net (req_url request) of
             Resolves networkResponse \<Rightarrow>
               if ok networkResponse
               then (Responds networkResponse,
                     cache_op STATIC_CACHE (\<lambda>c. cache_put c request networkResponse)
                       (caches_open st STATIC_CACHE))
               else (Responds networkResponse, st)
           | Rejects \<Rightarrow> (Responds offline_response, st)
           | Hangs \<Rightarrow> (Pending, st)))"

definition networkFirst :: "network \<Rightarrow> cache_storage \<Rightarrow> request \<Rightarrow> settled \<times> cache_storage" where
  "networkFirst net st request =
     (case net (req_url request) of
        Resolves networkResponse \<Rightarrow>
          if ok networkResponse
          then (Responds networkResponse,
                cache_op DYNAMIC_CACHE (\<lambda>c. cache_put c request networkResponse)
                  (caches_open st DYNAMIC_CACHE))
          else (Responds networkResponse, st)
      | Rejects \<Rightarrow>
          (case caches_match st (req_url request) of
             Some cachedResponse \<Rightarrow> (Responds cachedResponse, st)
           | None \<Rightarrow> (Responds offline_response, st))
      | Hangs \<Rightarrow> (Pending, st))"

definition cacheOnly :: "network \<Rightarrow> cache_storage \<Rightarrow> request \<Rightarrow> settled \<times> cache_storage" where
  "cacheOnly net st request =
     (case caches_match st (req_url request) of
        Some cachedResponse \<Rightarrow> (Responds cachedResponse, st)
      | None \<Rightarrow> (Responds not_found_response, st))"

definition networkOnly :: "network \<Rightarrow> cache_storage \<Rightarrow> request \<Rightarrow> settled \<times> cache_storage" where
  "networkOnly net st request =
     (case net (req_url request) of
        Resolves networkResponse \<Rightarrow> (Responds networkResponse, st)
      | Rejects \<Rightarrow> (Fails, st)
      | Hangs \<Rightarrow> (Pending, st))"

text \<open>
  In \<^verbatim>\<open>staleWhileRevalidate\<close> the chain \<^verbatim>\<open>fetch(request).then(...).catch(...)\<close> is a
  promise: it settles to the network response, to \<^verbatim>\<open>null\<close> when the fetch was rejected
  (the \<^verbatim>\<open>catch\<close> handler returns \<^verbatim>\<open>null\<close>), or never. \<open>networkResponsePromise\<close> is what
  it settles to and the storage its \<^verbatim>\<open>then\<close> handler leaves. With no cached response the
  function returns \<^verbatim>\<open>networkResponsePromise || new Response('Offline', { status: 503 })\<close>;
  the left operand is a promise object, which is truthy whatever it settles to, so the
  value of the expression is the promise.
\<close>

definition networkResponsePromise ::
  "network \<Rightarrow> cache_storage \<Rightarrow> request \<Rightarrow> settled \<times> cache_storage" where
  "networkResponsePromise net st request =
     (case net (req_url request) of
        Resolves response \<Rightarrow>
          (Responds response,
           if ok response
           then cache_op DYNAMIC_CACHE (\<lambda>c. cache_put c request response) st
           else st)
      | Rejects \<Rightarrow> (ResolvesNull, st)
      | Hangs \<Rightarrow> (Pending, st))"

definition staleWhileRevalidate ::
  "network \<Rightarrow> cache_storage \<Rightarrow> request \<Rightarrow> settled \<times> cache_storage" where
  "staleWhileRevalidate net st request =
     (let st1 = caches_open st DYNAMIC_CACHE;
          cachedResponse = cache_match (the_cache st1 DYNAMIC_CACHE) (req_url request);
          background = networkResponsePromise net st1 request
      in
        case cachedResponse of
          Some r \<Rightarrow> (Responds r, snd background)
        | None \<Rightarrow> background)"

text \<open>The \<^verbatim>\<open>switch\<close> of the fetch listener, and the listener itself: \<open>None\<close> when the
  listener returns without calling \<^verbatim>\<open>respondWith\<close> (the request is not intercepted).\<close>

definition respondWith ::
  "strategy \<Rightarrow> network \<Rightarrow> cache_storage \<Rightarrow> request \<Rightarrow> settled \<times> cache_storage" where
  "respondWith s net st request =
     (case s of
        CacheFirst \<Rightarrow> cacheFirst net st request
      | NetworkFirst \<Rightarrow> networkFirst net st request
      | CacheOnly \<Rightarrow> cacheOnly net st request
      | NetworkOnly \<Rightarrow> networkOnly net st request
      | StaleWhileRevalidate \<Rightarrow> staleWhileRevalidate net st request)"

definition fetch_listener ::
  "network \<Rightarrow> cache_storage \<Rightarrow> request \<Rightarrow> (settled \<times> cache_storage) option" where
  "fetch_listener net st request =
     (if req_method request \<noteq> ''GET'' then None
      else if \<not> startsWith (req_url request) ''http'' then None
      else Some (respondWith (getCacheStrategy request) net st request))"

section \<open>Install and activate\<close>

text \<open>
  What the promise handed to \<^verbatim>\<open>event.waitUntil\<close> does: the step succeeds when it is
  fulfilled and fails when it is rejected.
\<close>

datatype promise_state = Fulfilled | Rejected | NeverSettles







record activate_result =
  activate_storage :: cache_storage
  activate_waitUntil :: promise_state
  claim_called :: bool

definition activate :: "cache_storage \<Rightarrow> activate_result" where
  "activate st =
     \<lparr>activate_storage =
        foldl (\<lambda>s cacheName.
                 if cacheName \<noteq> STATIC_CACHE \<and> cacheName \<noteq> DYNAMIC_CACHE
                 then caches_delete s cacheName
                 else s)
          st (caches_keys st),
      activate_waitUntil = Fulfilled,
      claim_called = True\<rparr>"

section \<open>The expiry sweep\<close>

text \<open>
  \<^verbatim>\<open>new Date(dateHeader).getTime()\<close> is the platform's; it is a parameter \<open>date_parse\<close>,
  which gives milliseconds since the epoch, or \<open>None\<close> for \<^verbatim>\<open>NaN\<close> (every comparison
  with \<^verbatim>\<open>NaN\<close> is false). \<open>now\<close> is \<^verbatim>\<open>Date.now()\<close>. Reading \<^verbatim>\<open>headers\<close> of a
  missing response throws.
\<close>

datatype js_error = TypeError

fun sweep :: "(string \<Rightarrow> int option) \<Rightarrow> int \<Rightarrow> string list \<Rightarrow> cache \<Rightarrow> js_error + cache" where
  "sweep date_parse oneWeekAgo [] dynamicCache = Inr dynamicCache"
| "sweep date_parse oneWeekAgo (request # requests) dynamicCache =
     (case cache_match dynamicCache request of
        None \<Rightarrow> Inl TypeError
      | Some response \<Rightarrow>
          (case map_of (headers response) ''date'' of
             None \<Rightarrow> sweep date_parse oneWeekAgo requests dynamicCache
           | Some dateHeader \<Rightarrow>
               if dateHeader = [] then sweep date_parse oneWeekAgo requests dynamicCache
               else
                 (case date_parse dateHeader of
                    None \<Rightarrow> sweep date_parse oneWeekAgo requests dynamicCache
                  | Some responseDate \<Rightarrow>
                      if responseDate < oneWeekAgo
                      then sweep date_parse oneWeekAgo requests (cache_delete dynamicCache request)
                      else sweep date_parse oneWeekAgo requests dynamicCache)))"

definition cleanupCaches ::
  "(string \<Rightarrow> int option) \<Rightarrow> int \<Rightarrow> cache_storage \<Rightarrow> js_error + cache_storage" where
  "cleanupCaches date_parse now st =
     (let st1 = caches_open st DYNAMIC_CACHE;
          dynamicCache = the_cache st1 DYNAMIC_CACHE;
          requests = cache_keys dynamicCache;
          oneWeekAgo = now - (7 * 24 * 60 * 60 * 1000)
      in
        case sweep date_parse oneWeekAgo requests dynamicCache of
          Inl e \<Rightarrow> Inl e
        | Inr swept \<Rightarrow> Inr (cache_op DYNAMIC_CACHE (\<lambda>c. swept) st1))"

text \<open>The capture timestamp of an entry: its \<^verbatim>\<open>date\<close> header, when it has one that
  parses.\<close>

definition capture_timestamp :: "(string \<Rightarrow> int option) \<Rightarrow> response \<Rightarrow> int option" where
  "capture_timestamp date_parse r =
     (case map_of (headers r) ''date'' of
        None \<Rightarrow> None
      | Some d \<Rightarrow> if d = [] then None else date_parse d)"

definition older_than :: "(string \<Rightarrow> int option) \<Rightarrow> int \<Rightarrow> response \<Rightarrow> bool" where
  "older_than date_parse threshold r =
     (case capture_timestamp date_parse r of
        None \<Rightarrow> False
      | Some t \<Rightarrow> t < threshold)"

section \<open>Notifications\<close>

record push_payload =
  p_title :: string
  p_body :: string
  p_tag :: "string option"
  p_requireInteraction :: "bool option"
  p_url :: "string option"

record notification_data =
  d_url :: "string option"

text \<open>A displayed notification: the title and the options \<^verbatim>\<open>showNotification\<close> was
  given. \<open>n_data\<close> is the \<^verbatim>\<open>data\<close> option, \<^verbatim>\<open>null\<close> when none was given.\<close>

record notification =
  n_title :: string
  n_body :: string
  n_icon :: string
  n_badge :: string
  n_tag :: string
  n_requireInteraction :: bool
  n_data :: "notification_data option"

text \<open>The push listener: \<open>None\<close> when the event has no data (nothing is shown).\<close>

definition push_listener :: "push_payload option \<Rightarrow> notification option" where
  "push_listener event_data =
     (case event_data of
        None \<Rightarrow> None
      | Some data \<Rightarrow>
          Some \<lparr>n_title = p_title data,
                n_body = p_body data,
                n_icon = ''/icon-192x192.png'',
                n_badge = ''/badge-72x72.png'',
                n_tag = (case p_tag data of
                           None \<Rightarrow> ''default''
                         | Some t \<Rightarrow> if t = [] then ''default'' else t),
                n_requireInteraction = (case p_requireInteraction data of
                                          None \<Rightarrow> False
                                        | Some b \<Rightarrow> b),
                n_data = None\<rparr>)"

text \<open>The click listener: the URL given to \<^verbatim>\<open>clients.openWindow\<close>, which is
  \<^verbatim>\<open>event.notification.data?.url || '/'\<close>.\<close>

definition notificationclick :: "notification \<Rightarrow> string" where
  "notificationclick n =
     (case n_data n of
        None \<Rightarrow> ''/''
      | Some d \<Rightarrow>
          (case d_url d of
             None \<Rightarrow> ''/''
           | Some u \<Rightarrow> if u = [] then ''/'' else u))"

section \<open>The rules of the classification, as the specification orders them\<close>

text \<open>
  The specification gives the classification as an ordered list of rules of which the
  first match wins, with stale-while-revalidate as the default. The three conditions
  are the patterns of the worker.
\<close>

definition is_analytics :: "request \<Rightarrow> bool" where
  "is_analytics req =
     (str_includes (url_hostname req) ''google-analytics.com'' \<or>
      str_includes (url_hostname req) ''googletagmanager.com'' \<or>
      str_includes (url_pathname req) ''/analytics/'')"

definition is_api :: "request \<Rightarrow> bool" where
  "is_api req =
     (str_includes (url_pathname req) ''/api/'' \<or>
      str_includes (url_pathname req) ''.json'' \<or>
      (case hdr_accept req of
         None \<Rightarrow> False
       | Some accept \<Rightarrow> str_includes accept ''application/json''))"

definition is_static_asset :: "request \<Rightarrow> bool" where
  "is_static_asset req =
     ((\<exists>ext \<in> set static_extensions. endsWith (toLowerCase (url_pathname req)) (''.'' @ ext)) \<or>
      str_includes (url_hostname req) ''fonts.googleapis.com'' \<or>
      str_includes (url_hostname req) ''fonts.gstatic.com'' \<or>
      str_includes (url_hostname req) ''cdnjs.cloudflare.com'')"

definition classification_rules :: "((request \<Rightarrow> bool) \<times> strategy) list" where
  "classification_rules =
     [(is_analytics, NetworkOnly), (is_api, NetworkFirst), (is_static_asset, CacheFirst)]"

definition classify :: "request \<Rightarrow> strategy" where
  "classify req =
     (case find (\<lambda>rule. fst rule req) classification_rules of
        Some rule \<Rightarrow> snd rule
      | None \<Rightarrow> StaleWhileRevalidate)"

section \<open>Concrete requests, responses and storages\<close>

definition json_on_cdn :: request where
  "json_on_cdn =
     \<lparr>req_method = ''GET'',
      req_url = ''https://cdnjs.cloudflare.com/ajax/libs/x/data.json'',
      url_hostname = ''cdnjs.cloudflare.com'',
      url_pathname = ''/ajax/libs/x/data.json'',
      hdr_accept = None\<rparr>"

definition page_request :: request where
  "page_request =
     \<lparr>req_method = ''GET'',
      req_url = ''https://example.org/docs/intro'',
      url_hostname = ''example.org'',
      url_pathname = ''/docs/intro'',
      hdr_accept = Some ''text/html''\<rparr>"

definition stale_page :: response where
  "stale_page = \<lparr>status = 200, body = ''old page'', headers = []\<rparr>"

definition fresh_page :: response where
  "fresh_page = \<lparr>status = 200, body = ''new page'', headers = []\<rparr>"

definition partial_page :: response where
  "partial_page =
     \<lparr>status = 206, body = ''new pa'',
      headers = [(''content-range'', ''bytes 0-5/8'')]\<rparr>"

definition varying_css :: response where
  "varying_css =
     \<lparr>status = 200, body = ''body { color: green }'',
      headers = [(''vary'', ''accept-encoding, *'')]\<rparr>"

definition server_error :: response where
  "server_error = \<lparr>status = 500, body = ''Internal Server Error'', headers = []\<rparr>"

definition storage_with_page :: cache_storage where
  "storage_with_page =
     [(STATIC_CACHE, []),
      (DYNAMIC_CACHE, [(''https://example.org/docs/intro'', stale_page)])]"

definition css_request :: request where
  "css_request =
     \<lparr>req_method = ''GET'',
      req_url = ''https://example.org/assets/app.css'',
      url_hostname = ''example.org'',
      url_pathname = ''/assets/app.css'',
      hdr_accept = Some ''text/css,*/*;q=0.1''\<rparr>"

definition old_css :: response where
  "old_css = \<lparr>status = 200, body = ''body { color: red }'', headers = []\<rparr>"

definition new_css :: response where
  "new_css = \<lparr>status = 200, body = ''body { color: blue }'', headers = []\<rparr>"

definition storage_css_in_dynamic :: cache_storage where
  "storage_css_in_dynamic =
     [(STATIC_CACHE, []),
      (DYNAMIC_CACHE, [(''https://example.org/assets/app.css'', old_css)])]"

definition storage_with_old_generation :: cache_storage where
  "storage_with_old_generation =
     [(''mcp-static-v0'', [(''/'', stale_page)]),
      (STATIC_CACHE, [(''/'', fresh_page)]),
      (''mcp-docs-v1'', []),
      (DYNAMIC_CACHE, [(''https://example.org/docs/intro'', stale_page)])]"





definition demo_date_parse :: "string \<Rightarrow> int option" where
  "demo_date_parse =
     map_of
       [(''Tue, 07 Nov 2023 22:13:19 GMT'', 1699395199000),
        (''Tue, 07 Nov 2023 22:13:20 GMT'', 1699395200000),
        (''Tue, 07 Nov 2023 22:13:21 GMT'', 1699395201000)]"

definition dated :: "string \<Rightarrow> response" where
  "dated d = \<lparr>status = 200, body = ''page'', headers = [(''date'', d)]\<rparr>"

definition storage_three_ages :: cache_storage where
  "storage_three_ages =
     [(STATIC_CACHE, []),
      (DYNAMIC_CACHE,
        [(''/before'', dated ''Tue, 07 Nov 2023 22:13:19 GMT''),
         (''/at'', dated ''Tue, 07 Nov 2023 22:13:20 GMT''),
         (''/after'', dated ''Tue, 07 Nov 2023 22:13:21 GMT'')])]"

definition news_payload :: push_payload where
  "news_payload =
     \<lparr>p_title = ''News'', p_body = ''A new article'', p_tag = Some ''news'',
      p_requireInteraction = None, p_url = Some ''/news/42''\<rparr>"

section \<open>Classification\<close>

lemma getCacheStrategy_rules:
  "getCacheStrategy req =
     (if is_analytics req then NetworkOnly
      else if is_api req then NetworkFirst
      else if is_static_asset req then CacheFirst
      else StaleWhileRevalidate)"
  by (auto simp: getCacheStrategy_def is_analytics_def is_api_def is_static_asset_def
      matches_static_extension_def list_ex_iff split: option.splits)

lemma classify_rules:
  "classify req =
     (if is_analytics req then NetworkOnly
      else if is_api req then NetworkFirst
      else if is_static_asset req then CacheFirst
      else StaleWhileRevalidate)"
  by (simp add: classify_def classification_rules_def)

lemma json_on_cdn_api: "is_api json_on_cdn"
  by (simp add: is_api_def json_on_cdn_def)

lemma json_on_cdn_static: "is_static_asset json_on_cdn"
  by (simp add: is_static_asset_def json_on_cdn_def)

lemma json_on_cdn_not_analytics: "\<not> is_analytics json_on_cdn"
  by (simp add: is_analytics_def json_on_cdn_def)

lemma json_on_cdn_eligible:
  "req_method json_on_cdn = ''GET'' \<and> startsWith (req_url json_on_cdn) ''http''"
  by (simp add: json_on_cdn_def)

lemma networkFirst_json_on_cdn_offline:
  "networkFirst (\<lambda>u. Rejects) [] json_on_cdn = (Responds offline_response, [])"
  by (simp add: networkFirst_def)

text \<open>
  C3. \<open>getCacheStrategy\<close> is a function of the request alone (it takes no storage and no
  network, and it has a value for every request), and its value is that of the first
  matching rule in the order analytics (network only), API or JSON (network first),
  static asset (cache first), default (stale while revalidate): it equals \<open>classify\<close>,
  the first match over the ordered rule list. A request that matches an earlier and a
  later rule gets the earlier rule's strategy. For every request the fetch listener
  intercepts (method GET, URL starting with http), the strategy it runs is that one.
\<close>

theorem getCacheStrategy_first_match:
  "getCacheStrategy req = classify req \<and>
   (is_analytics req \<longrightarrow> getCacheStrategy req = NetworkOnly) \<and>
   (\<not> is_analytics req \<and> is_api req \<longrightarrow> getCacheStrategy req = NetworkFirst) \<and>
   (\<not> is_analytics req \<and> \<not> is_api req \<and> is_static_asset req \<longrightarrow>
      getCacheStrategy req = CacheFirst) \<and>
   (\<not> is_analytics req \<and> \<not> is_api req \<and> \<not> is_static_asset req \<longrightarrow>
      getCacheStrategy req = StaleWhileRevalidate) \<and>
   (req_method req = ''GET'' \<and> startsWith (req_url req) ''http'' \<longrightarrow>
      fetch_listener net st req = Some (respondWith (classify req) net st req))"
  by (simp add: getCacheStrategy_rules classify_rules fetch_listener_def)

text \<open>The witness is a \<^verbatim>\<open>.json\<close> URL on a CDN host: it matches the API rule and the
  static-asset rule, and the earlier one decides.\<close>

theorem getCacheStrategy_first_match_witness:
  "\<not> is_analytics json_on_cdn \<and> is_api json_on_cdn \<and> is_static_asset json_on_cdn \<and>
   req_method json_on_cdn = ''GET'' \<and> startsWith (req_url json_on_cdn) ''http'' \<and>
   getCacheStrategy json_on_cdn = NetworkFirst \<and>
   classify json_on_cdn = NetworkFirst \<and>
   fetch_listener (\<lambda>u. Rejects) [] json_on_cdn = Some (Responds offline_response, [])"
proof -
  note th = getCacheStrategy_first_match [of json_on_cdn "\<lambda>u. Rejects" "[]"]
  have strategy: "getCacheStrategy json_on_cdn = NetworkFirst"
    using th json_on_cdn_api json_on_cdn_not_analytics by blast
  then have spec: "classify json_on_cdn = NetworkFirst"
    using th by simp
  have "fetch_listener (\<lambda>u. Rejects) [] json_on_cdn =
          Some (respondWith (classify json_on_cdn) (\<lambda>u. Rejects) [] json_on_cdn)"
    using th json_on_cdn_eligible by blast
  then have "fetch_listener (\<lambda>u. Rejects) [] json_on_cdn = Some (Responds offline_response, [])"
    by (simp add: spec respondWith_def networkFirst_json_on_cdn_offline)
  then show ?thesis
    using strategy spec json_on_cdn_api json_on_cdn_static json_on_cdn_not_analytics
      json_on_cdn_eligible by simp
qed

section \<open>Cache storage: the effect of each operation on lookups\<close>

lemma cache_match_delete:
  "cache_match (cache_delete c k) k' = (if k' = k then None else cache_match c k')"
  by (induction c) (auto simp: cache_match_def cache_delete_def)

lemma cache_match_store:
  "cache_match (cache_store c k r) k' = (if k' = k then Some r else cache_match c k')"
proof -
  have "map_of (cache_delete c k @ [(k, r)]) k' =
          (if k' = k then Some r else map_of (cache_delete c k) k')"
    using cache_match_delete [of c k k']
    by (auto simp: map_add_def cache_match_def split: option.splits)
  then show ?thesis
    using cache_match_delete [of c k k'] by (simp add: cache_store_def cache_match_def)
qed

lemma cache_match_put:
  "cache_match (cache_put c req r) k' =
     (if put_accepted req r \<and> k' = req_url req then Some r else cache_match c k')"
  by (simp add: cache_put_def cache_match_store)

lemma cache_put_refused: "\<not> put_accepted req r \<Longrightarrow> cache_put c req r = c"
  by (simp add: cache_put_def)

lemma cache_op_same: "cache_op n (\<lambda>c. c) st = st"
  by (induction st) (auto simp: cache_op_def)

lemma caches_has_open: "caches_has (caches_open st n) m = (m = n \<or> caches_has st m)"
  by (auto simp: caches_open_def caches_has_def map_add_def split: option.splits)

lemma the_cache_open: "the_cache (caches_open st n) m = the_cache st m"
  by (auto simp: caches_open_def caches_has_def the_cache_def map_add_def split: option.splits)

lemma map_of_cache_op:
  "map_of (cache_op n f st) m =
     (if m = n then map_option f (map_of st n) else map_of st m)"
  by (induction st) (auto simp: cache_op_def)

lemma the_cache_cache_op:
  "the_cache (cache_op n f st) m =
     (if m = n \<and> caches_has st n then f (the_cache st n) else the_cache st m)"
  by (auto simp: the_cache_def map_of_cache_op caches_has_def split: option.splits)

lemma entry_open: "entry (caches_open st n) m k = entry st m k"
  by (simp add: entry_def the_cache_open)

lemma entry_put:
  "caches_has st n \<Longrightarrow>
   entry (cache_op n (\<lambda>c. cache_put c req r) st) m k' =
     (if put_accepted req r \<and> m = n \<and> k' = req_url req then Some r else entry st m k')"
  by (simp add: entry_def the_cache_cache_op cache_match_put)

lemma entry_put_open:
  "entry (cache_op n (\<lambda>c. cache_put c req r) (caches_open st n)) m k' =
     (if put_accepted req r \<and> m = n \<and> k' = req_url req then Some r else entry st m k')"
  by (simp add: entry_put caches_has_open entry_open)

lemma caches_match_append:
  "caches_match (st @ st') k =
     (case caches_match st k of Some r \<Rightarrow> Some r | None \<Rightarrow> caches_match st' k)"
  by (induction st) (auto split: option.splits)

lemma caches_match_open: "caches_match (caches_open st n) k = caches_match st k"
  by (simp add: caches_open_def caches_match_append cache_match_def split: option.splits)

lemma caches_match_put:
  "caches_match st (req_url req) = None \<Longrightarrow> caches_has st n \<Longrightarrow> put_accepted req r \<Longrightarrow>
   caches_match (cache_op n (\<lambda>c. cache_put c req r) st) (req_url req) = Some r"
proof (induction st)
  case Nil
  then show ?case by (simp add: caches_has_def)
next
  case (Cons e st)
  obtain m c where e: "e = (m, c)" by (cases e)
  from Cons.prems(1) e
  have miss: "cache_match c (req_url req) = None" "caches_match st (req_url req) = None"
    by (auto split: option.splits)
  show ?case
  proof (cases "m = n")
    case True
    with Cons.prems(3) show ?thesis by (simp add: e cache_op_def cache_match_put)
  next
    case False
    with Cons.prems(2) e have "caches_has st n" by (simp add: caches_has_def)
    with Cons.IH miss Cons.prems(3)
    have "caches_match (cache_op n (\<lambda>c. cache_put c req r) st) (req_url req) = Some r"
      by simp
    with False miss show ?thesis by (simp add: e cache_op_def)
  qed
qed

lemma caches_match_put_open:
  "caches_match st (req_url req) = None \<Longrightarrow> put_accepted req r \<Longrightarrow>
   caches_match (cache_op n (\<lambda>c. cache_put c req r) (caches_open st n)) (req_url req) = Some r"
  by (simp add: caches_match_put caches_match_open caches_has_open)

lemma startsWith_append: "startsWith s (p @ q) \<Longrightarrow> startsWith s p"
  by (induction s p rule: startsWith.induct) auto

lemma http_scheme_startsWith_http:
  "startsWith u ''http:'' \<or> startsWith u ''https:'' \<Longrightarrow> startsWith u ''http''"
  using startsWith_append [of u "''http''" "'':''"] startsWith_append [of u "''http''" "''s:''"]
  by auto

section \<open>The strategies\<close>

lemma staleWhileRevalidate_hit:
  assumes "entry st DYNAMIC_CACHE (req_url req) = Some cached"
  shows "fst (staleWhileRevalidate net st req) = Responds cached"
  using assms
  by (simp add: staleWhileRevalidate_def Let_def the_cache_open entry_def)

lemma staleWhileRevalidate_refresh:
  assumes "net (req_url req) = Resolves fresh" and "ok fresh"
  shows "entry (snd (staleWhileRevalidate net st req)) DYNAMIC_CACHE (req_url req) =
     (if put_accepted req fresh then Some fresh else entry st DYNAMIC_CACHE (req_url req))"
  using assms
  by (simp add: staleWhileRevalidate_def Let_def networkResponsePromise_def entry_put_open
      split: option.splits)

lemma page_request_strategy: "getCacheStrategy page_request = StaleWhileRevalidate"
  by (simp add: getCacheStrategy_def page_request_def matches_static_extension_def
      static_extensions_def endsWith_def toLowerCase_def toLowerChar_def)

lemma storage_with_page_entry:
  "entry storage_with_page DYNAMIC_CACHE (req_url page_request) = Some stale_page"
  by (simp add: entry_def the_cache_def storage_with_page_def STATIC_CACHE_def DYNAMIC_CACHE_def
      page_request_def cache_match_def)

lemma page_request_eligible:
  "req_method page_request = ''GET'' \<and> startsWith (req_url page_request) ''http''"
  by (simp add: page_request_def)

lemma page_request_https:
  "startsWith (req_url page_request) ''http:'' \<or> startsWith (req_url page_request) ''https:''"
  by (simp add: page_request_def)

lemma ok_fresh_page: "ok fresh_page"
  by (simp add: ok_def fresh_page_def)

lemma fresh_page_storable: "status fresh_page \<noteq> 206 \<and> \<not> vary_star fresh_page"
  by (simp add: fresh_page_def vary_star_def)

lemma partial_page_ok: "ok partial_page \<and> status partial_page = 206"
  by (simp add: ok_def partial_page_def)

lemma storage_with_page_opened:
  "caches_open storage_with_page DYNAMIC_CACHE = storage_with_page"
  by (simp add: caches_open_def caches_has_def storage_with_page_def)

text \<open>
  C1, as stated, fails for a 2xx response that the cache refuses. The page is in the
  dynamic namespace and the refresh resolves with status 206 (partial content, the
  answer to a range request), which is a 2xx status, so the worker calls
  \<^verbatim>\<open>cache.put\<close>; the cache refuses a 206 response, the rejection is not awaited, and
  the dynamic namespace still holds the stale entry after the refresh.
\<close>

theorem staleWhileRevalidate_partial_content_counterexample:
  "req_method page_request = ''GET'' \<and>
   startsWith (req_url page_request) ''http'' \<and>
   getCacheStrategy page_request = StaleWhileRevalidate \<and>
   entry storage_with_page DYNAMIC_CACHE (req_url page_request) = Some stale_page \<and>
   ok partial_page \<and>
   fetch_listener (\<lambda>u. Resolves partial_page) storage_with_page page_request =
     Some (Responds stale_page, storage_with_page) \<and>
   entry storage_with_page DYNAMIC_CACHE (req_url page_request) \<noteq> Some partial_page"
proof -
  have refused: "\<not> put_accepted page_request partial_page"
    by (simp add: put_accepted_def partial_page_def)
  have "staleWhileRevalidate (\<lambda>u. Resolves partial_page) storage_with_page page_request =
      (Responds stale_page, storage_with_page)"
    using storage_with_page_entry partial_page_ok
    by (simp add: staleWhileRevalidate_def Let_def networkResponsePromise_def
        storage_with_page_opened entry_def cache_put_refused [OF refused] cache_op_same)
  then have "fetch_listener (\<lambda>u. Resolves partial_page) storage_with_page page_request =
      Some (Responds stale_page, storage_with_page)"
    using page_request_eligible page_request_strategy
    by (simp add: fetch_listener_def respondWith_def)
  moreover have "stale_page \<noteq> partial_page"
    by (simp add: stale_page_def partial_page_def)
  ultimately show ?thesis
    using page_request_eligible page_request_strategy storage_with_page_entry partial_page_ok
    by simp
qed

text \<open>
  C1, amended. For every request the fetch listener intercepts (GET, an http or https
  URL) and classifies stale-while-revalidate, whose key has an entry in the dynamic
  namespace: the listener answers with that cached entry, whatever the network does,
  also when the fetch never settles (so the answer does not wait for the fetch). When
  the refresh resolves with a 2xx response that the cache accepts (its status is not
  206 and it has no \<^verbatim>\<open>Vary: *\<close>), the dynamic namespace holds that network response
  for the key in the storage the refresh leaves, although the caller got the stale
  entry. When the refresh resolves with a response of status 206 or with
  \<^verbatim>\<open>Vary: *\<close>, nothing is stored and the dynamic namespace still holds the stale
  entry. (The interleaving of the two paths in time is not part of the model: the
  storage is taken once the refresh has completed.)
\<close>

theorem staleWhileRevalidate_stale_then_refreshed:
  assumes "req_method req = ''GET''"
    and "startsWith (req_url req) ''http:'' \<or> startsWith (req_url req) ''https:''"
    and "getCacheStrategy req = StaleWhileRevalidate"
    and "entry st DYNAMIC_CACHE (req_url req) = Some cached"
  shows "\<exists>st'. fetch_listener net st req = Some (Responds cached, st') \<and>
           (\<forall>fresh. net (req_url req) = Resolves fresh \<and> ok fresh \<and>
                     status fresh \<noteq> 206 \<and> \<not> vary_star fresh \<longrightarrow>
              entry st' DYNAMIC_CACHE (req_url req) = Some fresh) \<and>
           (\<forall>fresh. net (req_url req) = Resolves fresh \<and>
                     (status fresh = 206 \<or> vary_star fresh) \<longrightarrow>
              entry st' DYNAMIC_CACHE (req_url req) = Some cached) \<and>
           (\<exists>st''. fetch_listener (\<lambda>u. Hangs) st req = Some (Responds cached, st''))"
proof -
  have http: "startsWith (req_url req) ''http''"
    using assms(2) by (rule http_scheme_startsWith_http)
  have run: "fetch_listener n st req = Some (staleWhileRevalidate n st req)" for n
    using assms(1,3) http by (simp add: fetch_listener_def respondWith_def)
  have now: "fst (staleWhileRevalidate n st req) = Responds cached" for n
    using assms(4) by (rule staleWhileRevalidate_hit)
  have accepted: "put_accepted req fresh = (status fresh \<noteq> 206 \<and> \<not> vary_star fresh)" for fresh
    using assms(1,2) by (simp add: put_accepted_def)
  have stored: "entry (snd (staleWhileRevalidate net st req)) DYNAMIC_CACHE (req_url req) =
      Some fresh"
    if "net (req_url req) = Resolves fresh" "ok fresh" "status fresh \<noteq> 206" "\<not> vary_star fresh"
    for fresh
    using staleWhileRevalidate_refresh [where net = net and req = req and fresh = fresh and st = st]
      that accepted
    by simp
  have kept: "entry (snd (staleWhileRevalidate net st req)) DYNAMIC_CACHE (req_url req) =
      Some cached"
    if "net (req_url req) = Resolves fresh" "status fresh = 206 \<or> vary_star fresh"
    for fresh
  proof (cases "ok fresh")
    case True
    then show ?thesis
      using staleWhileRevalidate_refresh [where net = net and req = req and fresh = fresh and st = st]
        that accepted assms(4)
      by auto
  next
    case False
    then show ?thesis
      using that(1) assms(4)
      by (simp add: staleWhileRevalidate_def Let_def networkResponsePromise_def entry_open
          split: option.splits)
  qed
  have "fetch_listener net st req =
          Some (Responds cached, snd (staleWhileRevalidate net st req))"
    using run [of net] now [of net] by (metis prod.collapse)
  moreover have "fetch_listener (\<lambda>u. Hangs) st req =
          Some (Responds cached, snd (staleWhileRevalidate (\<lambda>u. Hangs) st req))"
    using run [of "\<lambda>u. Hangs"] now [of "\<lambda>u. Hangs"] by (metis prod.collapse)
  ultimately show ?thesis
    using stored kept by blast
qed

theorem staleWhileRevalidate_stale_then_refreshed_witness:
  "req_method page_request = ''GET'' \<and>
   (startsWith (req_url page_request) ''http:'' \<or> startsWith (req_url page_request) ''https:'') \<and>
   getCacheStrategy page_request = StaleWhileRevalidate \<and>
   entry storage_with_page DYNAMIC_CACHE (req_url page_request) = Some stale_page \<and>
   ok fresh_page \<and> status fresh_page \<noteq> 206 \<and> \<not> vary_star fresh_page \<and>
   (\<exists>st'. fetch_listener (\<lambda>u. Resolves fresh_page) storage_with_page page_request =
            Some (Responds stale_page, st') \<and>
          entry st' DYNAMIC_CACHE (req_url page_request) = Some fresh_page) \<and>
   status partial_page = 206 \<and>
   (\<exists>st'. fetch_listener (\<lambda>u. Resolves partial_page) storage_with_page page_request =
            Some (Responds stale_page, st') \<and>
          entry st' DYNAMIC_CACHE (req_url page_request) = Some stale_page)"
proof -
  have get: "req_method page_request = ''GET''"
    using page_request_eligible by simp
  have "\<exists>st'. fetch_listener (\<lambda>u. Resolves fresh_page) storage_with_page page_request =
            Some (Responds stale_page, st') \<and>
          entry st' DYNAMIC_CACHE (req_url page_request) = Some fresh_page"
    using staleWhileRevalidate_stale_then_refreshed
      [OF get page_request_https page_request_strategy storage_with_page_entry,
        of "\<lambda>u. Resolves fresh_page"]
      ok_fresh_page fresh_page_storable
    by blast
  moreover
  have "\<exists>st'. fetch_listener (\<lambda>u. Resolves partial_page) storage_with_page page_request =
            Some (Responds stale_page, st') \<and>
          entry st' DYNAMIC_CACHE (req_url page_request) = Some stale_page"
    using staleWhileRevalidate_stale_then_refreshed
      [OF get page_request_https page_request_strategy storage_with_page_entry,
        of "\<lambda>u. Resolves partial_page"]
      partial_page_ok
    by blast
  ultimately show ?thesis
    using get page_request_https page_request_strategy storage_with_page_entry ok_fresh_page
      fresh_page_storable partial_page_ok
    by simp
qed

lemma not_ok_server_error: "\<not> ok server_error"
  by (simp add: ok_def server_error_def)

lemma storage_with_page_match:
  "caches_match storage_with_page (req_url page_request) = Some stale_page"
  by (simp add: storage_with_page_def page_request_def cache_match_def)

text \<open>
  C10. When the fetch of a network-first request resolves with a non-success status, the
  executor returns that response as it is and leaves the storage as it was: nothing is
  written, and a cached entry for the key, if there is one, is not used. The cached
  entry (or the 503 sentinel) is the answer only when the fetch is rejected.
\<close>

theorem networkFirst_non_success_passes_through:
  "(net (req_url req) = Resolves r \<and> \<not> ok r \<longrightarrow>
      networkFirst net st req = (Responds r, st)) \<and>
   (net (req_url req) = Rejects \<longrightarrow>
      networkFirst net st req =
        (case caches_match st (req_url req) of
           Some cachedResponse \<Rightarrow> (Responds cachedResponse, st)
         | None \<Rightarrow> (Responds offline_response, st)))"
  by (simp add: networkFirst_def)

theorem networkFirst_non_success_passes_through_witness:
  "\<not> ok server_error \<and>
   caches_match storage_with_page (req_url page_request) = Some stale_page \<and>
   networkFirst (\<lambda>u. Resolves server_error) storage_with_page page_request =
     (Responds server_error, storage_with_page) \<and>
   networkFirst (\<lambda>u. Rejects) storage_with_page page_request =
     (Responds stale_page, storage_with_page)"
  using networkFirst_non_success_passes_through
      [of "\<lambda>u. Resolves server_error" page_request server_error storage_with_page]
    networkFirst_non_success_passes_through
      [of "\<lambda>u. Rejects" page_request server_error storage_with_page]
    not_ok_server_error storage_with_page_match
  by simp

lemma respondWith_storage:
  "snd (respondWith s net st req) = st \<or>
   snd (respondWith s net st req) = caches_open st DYNAMIC_CACHE \<or>
   (\<exists>r n. net (req_url req) = Resolves r \<and> ok r \<and>
      snd (respondWith s net st req) =
        cache_op n (\<lambda>c. cache_put c req r) (caches_open st n))"
  by (cases s)
    (auto simp: respondWith_def cacheFirst_def networkFirst_def cacheOnly_def networkOnly_def
      staleWhileRevalidate_def networkResponsePromise_def Let_def
      split: option.splits fetch_outcome.splits)

lemma respondWith_entry:
  assumes "entry (snd (respondWith s net st req)) n k = Some r"
  shows "entry st n k = Some r \<or> (k = req_url req \<and> net k = Resolves r \<and> ok r)"
  using respondWith_storage [of s net st req] assms
  by (auto simp: entry_open entry_put_open split: if_splits)

lemma respondWith_non_success_storage:
  assumes "net (req_url req) = Resolves r" and "\<not> ok r"
  shows "entry (snd (respondWith s net st req)) n k = entry st n k"
  using respondWith_storage [of s net st req] assms
  by (auto simp: entry_open)

lemma respondWith_non_success_result:
  assumes "net (req_url req) = Resolves r" and "\<not> ok r"
  shows "case s of
           CacheFirst \<Rightarrow>
             (if caches_match st (req_url req) = None
              then fst (respondWith s net st req) = Responds r
              else fst (respondWith s net st req) = Responds (the (caches_match st (req_url req))))
         | NetworkFirst \<Rightarrow> fst (respondWith s net st req) = Responds r
         | CacheOnly \<Rightarrow> True
         | NetworkOnly \<Rightarrow> fst (respondWith s net st req) = Responds r
         | StaleWhileRevalidate \<Rightarrow>
             (if entry st DYNAMIC_CACHE (req_url req) = None
              then fst (respondWith s net st req) = Responds r
              else fst (respondWith s net st req) =
                     Responds (the (entry st DYNAMIC_CACHE (req_url req))))"
  using assms
  by (cases s)
    (auto simp: respondWith_def cacheFirst_def networkFirst_def networkOnly_def
      staleWhileRevalidate_def networkResponsePromise_def Let_def entry_def the_cache_open
      split: option.splits)

text \<open>
  C4. For every strategy and every request: an entry that a namespace holds after the
  strategy ran was there before, or it is the network's response to this request, stored
  under the request's key, and that response is successful (2xx). When the network
  answers with a non-success status, every namespace holds for every key what it held
  before, and that response is what the caller gets whenever the strategy answers from
  the network (network first, network only, and cache first or stale-while-revalidate
  on a miss).
\<close>

theorem only_successful_responses_are_cached:
  "(\<forall>n k r. entry (snd (respondWith s net st req)) n k = Some r \<longrightarrow>
      entry st n k = Some r \<or> (k = req_url req \<and> net k = Resolves r \<and> ok r)) \<and>
   (\<forall>r. net (req_url req) = Resolves r \<and> \<not> ok r \<longrightarrow>
      (\<forall>n k. entry (snd (respondWith s net st req)) n k = entry st n k) \<and>
      (s = NetworkFirst \<or> s = NetworkOnly \<or>
       (s = CacheFirst \<and> caches_match st (req_url req) = None) \<or>
       (s = StaleWhileRevalidate \<and> entry st DYNAMIC_CACHE (req_url req) = None) \<longrightarrow>
         fst (respondWith s net st req) = Responds r))"
proof (intro conjI allI impI)
  fix n k r
  assume "entry (snd (respondWith s net st req)) n k = Some r"
  then show "entry st n k = Some r \<or> (k = req_url req \<and> net k = Resolves r \<and> ok r)"
    by (rule respondWith_entry)
next
  fix r n k
  assume "net (req_url req) = Resolves r \<and> \<not> ok r"
  then show "entry (snd (respondWith s net st req)) n k = entry st n k"
    by (simp add: respondWith_non_success_storage)
next
  fix r
  assume bad: "net (req_url req) = Resolves r \<and> \<not> ok r"
    and "s = NetworkFirst \<or> s = NetworkOnly \<or>
       (s = CacheFirst \<and> caches_match st (req_url req) = None) \<or>
       (s = StaleWhileRevalidate \<and> entry st DYNAMIC_CACHE (req_url req) = None)"
  then show "fst (respondWith s net st req) = Responds r"
    using respondWith_non_success_result [where net = net and req = req and r = r and s = s and st = st]
    by auto
qed

lemma ok_new_css: "ok new_css"
  by (simp add: ok_def new_css_def)

lemma css_request_new_css_accepted: "put_accepted css_request new_css"
  by (simp add: put_accepted_def css_request_def new_css_def vary_star_def)

lemma put_on_empty_storage:
  "put_accepted req r \<Longrightarrow>
   cache_op n (\<lambda>c. cache_put c req r) (caches_open [] n) = [(n, [(req_url req, r)])]"
  by (simp add: caches_open_def caches_has_def cache_op_def cache_put_def cache_store_def
      cache_delete_def)

lemma cacheFirst_empty_new_css:
  "snd (respondWith CacheFirst (\<lambda>u. Resolves new_css) [] css_request) =
     [(STATIC_CACHE, [(req_url css_request, new_css)])]"
  by (simp add: respondWith_def cacheFirst_def ok_new_css
      put_on_empty_storage [OF css_request_new_css_accepted])

lemma entry_single: "entry [(n, [(k, r)])] n k = Some r"
  by (simp add: entry_def the_cache_def cache_match_def)

theorem only_successful_responses_are_cached_witness:
  "entry (snd (respondWith CacheFirst (\<lambda>u. Resolves new_css) [] css_request))
     STATIC_CACHE (req_url css_request) = Some new_css \<and>
   entry [] STATIC_CACHE (req_url css_request) \<noteq> Some new_css \<and>
   ok new_css \<and>
   \<not> ok server_error \<and>
   entry (snd (respondWith NetworkFirst (\<lambda>u. Resolves server_error) storage_with_page
     page_request)) DYNAMIC_CACHE (req_url page_request) = Some stale_page \<and>
   fst (respondWith NetworkFirst (\<lambda>u. Resolves server_error) storage_with_page page_request) =
     Responds server_error"
proof -
  note a = only_successful_responses_are_cached
    [where s = CacheFirst and net = "\<lambda>u. Resolves new_css" and st = "[]" and req = css_request]
  note b = only_successful_responses_are_cached
    [where s = NetworkFirst and net = "\<lambda>u. Resolves server_error" and st = storage_with_page
      and req = page_request]
  have stored: "entry (snd (respondWith CacheFirst (\<lambda>u. Resolves new_css) [] css_request))
     STATIC_CACHE (req_url css_request) = Some new_css"
    by (simp add: cacheFirst_empty_new_css entry_single)
  have fresh: "entry [] STATIC_CACHE (req_url css_request) \<noteq> Some new_css"
    by (simp add: entry_def the_cache_def cache_match_def)
  from a stored fresh have "ok new_css" by blast
  moreover from b not_ok_server_error
  have "entry (snd (respondWith NetworkFirst (\<lambda>u. Resolves server_error) storage_with_page
     page_request)) DYNAMIC_CACHE (req_url page_request) =
       entry storage_with_page DYNAMIC_CACHE (req_url page_request)"
    and "fst (respondWith NetworkFirst (\<lambda>u. Resolves server_error) storage_with_page
      page_request) = Responds server_error"
    by blast+
  ultimately show ?thesis
    using stored fresh not_ok_server_error storage_with_page_entry by simp
qed

lemma css_request_strategy: "getCacheStrategy css_request = CacheFirst"
  by (simp add: getCacheStrategy_def css_request_def matches_static_extension_def
      static_extensions_def endsWith_def toLowerCase_def toLowerChar_def)

lemma old_css_not_new_css: "old_css \<noteq> new_css"
  by (simp add: old_css_def new_css_def)

text \<open>
  C8, as stated, fails: cache first does not read the static namespace only. The lookup
  is \<^verbatim>\<open>caches.match(request)\<close>, over every namespace. Here the static namespace misses,
  the dynamic namespace holds the key and the network would answer 200: the executor
  returns the dynamic namespace's entry, makes no fetch and writes nothing through to
  the static namespace.
\<close>

theorem cacheFirst_static_miss_counterexample:
  "getCacheStrategy css_request = CacheFirst \<and>
   entry storage_css_in_dynamic STATIC_CACHE (req_url css_request) = None \<and>
   ok new_css \<and>
   cacheFirst (\<lambda>u. Resolves new_css) storage_css_in_dynamic css_request =
     (Responds old_css, storage_css_in_dynamic) \<and>
   old_css \<noteq> new_css \<and>
   entry (snd (cacheFirst (\<lambda>u. Resolves new_css) storage_css_in_dynamic css_request))
     STATIC_CACHE (req_url css_request) = None"
proof -
  have run: "cacheFirst (\<lambda>u. Resolves new_css) storage_css_in_dynamic css_request =
     (Responds old_css, storage_css_in_dynamic)"
    by (simp add: cacheFirst_def storage_css_in_dynamic_def css_request_def cache_match_def)
  have miss: "entry storage_css_in_dynamic STATIC_CACHE (req_url css_request) = None"
    by (simp add: entry_def the_cache_def storage_css_in_dynamic_def cache_match_def)
  show ?thesis
    using run miss css_request_strategy ok_new_css old_css_not_new_css by simp
qed

text \<open>
  C8, amended. Cache first looks the key up in every namespace, in creation order. On a
  hit it returns the first entry found and the storage is untouched, whatever the
  network does (no network call). When no namespace holds the key and the fetch
  resolves with a 2xx response that the cache accepts (the request is a GET of an http
  or https URL, the status is not 206 and the response has no \<^verbatim>\<open>Vary: *\<close>), it
  returns that response and writes it through to the static namespace, and the same
  request run again on the resulting storage returns that response whatever the
  network does. A 2xx response that the cache refuses is returned and not stored: the
  static namespace is opened, no namespace holds the key, and the next request fetches
  again. When no namespace holds the key and the fetch is rejected, it returns the
  sentinel response, of status 503.
\<close>

theorem cacheFirst_hit_miss_failure:
  "(caches_match st (req_url req) = Some cached \<longrightarrow>
      cacheFirst net st req = (Responds cached, st)) \<and>
   (caches_match st (req_url req) = None \<and> net (req_url req) = Resolves r \<and> ok r \<and>
    req_method req = ''GET'' \<and>
    (startsWith (req_url req) ''http:'' \<or> startsWith (req_url req) ''https:'') \<and>
    status r \<noteq> 206 \<and> \<not> vary_star r \<longrightarrow>
      cacheFirst net st req =
        (Responds r,
         cache_op STATIC_CACHE (\<lambda>c. cache_store c (req_url req) r)
           (caches_open st STATIC_CACHE)) \<and>
      entry (snd (cacheFirst net st req)) STATIC_CACHE (req_url req) = Some r \<and>
      (\<forall>net'. cacheFirst net' (snd (cacheFirst net st req)) req =
         (Responds r, snd (cacheFirst net st req)))) \<and>
   (caches_match st (req_url req) = None \<and> net (req_url req) = Resolves r \<and> ok r \<and>
    (status r = 206 \<or> vary_star r) \<longrightarrow>
      cacheFirst net st req = (Responds r, caches_open st STATIC_CACHE) \<and>
      caches_match (snd (cacheFirst net st req)) (req_url req) = None \<and>
      (\<forall>n k. entry (snd (cacheFirst net st req)) n k = entry st n k)) \<and>
   (caches_match st (req_url req) = None \<and> net (req_url req) = Rejects \<longrightarrow>
      cacheFirst net st req = (Responds offline_response, st) \<and>
      status offline_response = 503)"
proof (intro conjI impI)
  assume "caches_match st (req_url req) = Some cached"
  then show "cacheFirst net st req = (Responds cached, st)"
    by (simp add: cacheFirst_def)
next
  assume miss: "caches_match st (req_url req) = None \<and> net (req_url req) = Resolves r \<and> ok r \<and>
    req_method req = ''GET'' \<and>
    (startsWith (req_url req) ''http:'' \<or> startsWith (req_url req) ''https:'') \<and>
    status r \<noteq> 206 \<and> \<not> vary_star r"
  then have accepted: "put_accepted req r"
    by (simp add: put_accepted_def)
  then have put: "cache_put c req r = cache_store c (req_url req) r" for c
    by (simp add: cache_put_def)
  from miss show run: "cacheFirst net st req =
        (Responds r,
         cache_op STATIC_CACHE (\<lambda>c. cache_store c (req_url req) r)
           (caches_open st STATIC_CACHE))"
    by (simp add: cacheFirst_def put)
  have written: "snd (cacheFirst net st req) =
      cache_op STATIC_CACHE (\<lambda>c. cache_put c req r) (caches_open st STATIC_CACHE)"
    by (simp add: run put)
  show "entry (snd (cacheFirst net st req)) STATIC_CACHE (req_url req) = Some r"
    using accepted by (simp only: written entry_put_open) simp
  from miss accepted
  have "caches_match (snd (cacheFirst net st req)) (req_url req) = Some r"
    by (simp only: written caches_match_put_open)
  then show "\<forall>net'. cacheFirst net' (snd (cacheFirst net st req)) req =
         (Responds r, snd (cacheFirst net st req))"
    by (simp add: cacheFirst_def)
next
  assume miss: "caches_match st (req_url req) = None \<and> net (req_url req) = Resolves r \<and> ok r \<and>
    (status r = 206 \<or> vary_star r)"
  then have "\<not> put_accepted req r"
    by (auto simp: put_accepted_def)
  then have put: "cache_put c req r = c" for c
    by (rule cache_put_refused)
  from miss show run: "cacheFirst net st req = (Responds r, caches_open st STATIC_CACHE)"
    by (simp add: cacheFirst_def put cache_op_same)
  from miss show "caches_match (snd (cacheFirst net st req)) (req_url req) = None"
    by (simp add: run caches_match_open)
  show "\<forall>n k. entry (snd (cacheFirst net st req)) n k = entry st n k"
    by (simp add: run entry_open)
next
  assume "caches_match st (req_url req) = None \<and> net (req_url req) = Rejects"
  then show "cacheFirst net st req = (Responds offline_response, st)"
    by (simp add: cacheFirst_def)
next
  show "status offline_response = 503"
    by (simp add: offline_response_def)
qed

lemma caches_match_css_in_dynamic:
  "caches_match storage_css_in_dynamic (req_url css_request) = Some old_css"
  by (simp add: storage_css_in_dynamic_def css_request_def cache_match_def)

lemma css_request_get_https:
  "req_method css_request = ''GET'' \<and>
   (startsWith (req_url css_request) ''http:'' \<or> startsWith (req_url css_request) ''https:'')"
  by (simp add: css_request_def)

lemma new_css_storable: "status new_css \<noteq> 206 \<and> \<not> vary_star new_css"
  by (simp add: new_css_def vary_star_def)

lemma varying_css_refused: "ok varying_css \<and> vary_star varying_css"
  by (simp add: ok_def varying_css_def vary_star_def field_values_def trim_def
      is_http_whitespace_def toLowerCase_def toLowerChar_def)

theorem cacheFirst_hit_miss_failure_witness:
  "caches_match storage_css_in_dynamic (req_url css_request) = Some old_css \<and>
   cacheFirst (\<lambda>u. Hangs) storage_css_in_dynamic css_request =
     (Responds old_css, storage_css_in_dynamic) \<and>
   caches_match [] (req_url css_request) = None \<and> ok new_css \<and>
   req_method css_request = ''GET'' \<and>
   (startsWith (req_url css_request) ''http:'' \<or> startsWith (req_url css_request) ''https:'') \<and>
   status new_css \<noteq> 206 \<and> \<not> vary_star new_css \<and>
   cacheFirst (\<lambda>u. Resolves new_css) [] css_request =
     (Responds new_css, [(STATIC_CACHE, [(req_url css_request, new_css)])]) \<and>
   cacheFirst (\<lambda>u. Hangs) [(STATIC_CACHE, [(req_url css_request, new_css)])] css_request =
     (Responds new_css, [(STATIC_CACHE, [(req_url css_request, new_css)])]) \<and>
   ok varying_css \<and> vary_star varying_css \<and>
   cacheFirst (\<lambda>u. Resolves varying_css) [] css_request =
     (Responds varying_css, [(STATIC_CACHE, [])]) \<and>
   cacheFirst (\<lambda>u. Rejects) [] css_request = (Responds offline_response, []) \<and>
   status offline_response = 503"
proof -
  note hit = cacheFirst_hit_miss_failure
    [where st = storage_css_in_dynamic and req = css_request and cached = old_css
      and net = "\<lambda>u. Hangs"]
  note miss = cacheFirst_hit_miss_failure
    [where st = "[]" and req = css_request and r = new_css and net = "\<lambda>u. Resolves new_css"]
  note refused = cacheFirst_hit_miss_failure
    [where st = "[]" and req = css_request and r = varying_css
      and net = "\<lambda>u. Resolves varying_css"]
  note down = cacheFirst_hit_miss_failure
    [where st = "[]" and req = css_request and net = "\<lambda>u. Rejects"]
  have st': "cache_op STATIC_CACHE (\<lambda>c. cache_store c (req_url css_request) new_css)
               (caches_open [] STATIC_CACHE) = [(STATIC_CACHE, [(req_url css_request, new_css)])]"
    by (simp add: caches_open_def caches_has_def cache_op_def cache_store_def cache_delete_def)
  have opened: "caches_open [] STATIC_CACHE = [(STATIC_CACHE, [])]"
    by (simp add: caches_open_def caches_has_def)
  have empty: "caches_match [] (req_url css_request) = None" by simp
  have first: "cacheFirst (\<lambda>u. Resolves new_css) [] css_request =
     (Responds new_css, [(STATIC_CACHE, [(req_url css_request, new_css)])])"
    using miss empty ok_new_css css_request_get_https new_css_storable st' by simp
  have "\<forall>net'. cacheFirst net' (snd (cacheFirst (\<lambda>u. Resolves new_css) [] css_request))
            css_request =
          (Responds new_css, snd (cacheFirst (\<lambda>u. Resolves new_css) [] css_request))"
    using miss empty ok_new_css css_request_get_https new_css_storable by blast
  then have again: "cacheFirst (\<lambda>u. Hangs) [(STATIC_CACHE, [(req_url css_request, new_css)])]
      css_request = (Responds new_css, [(STATIC_CACHE, [(req_url css_request, new_css)])])"
    by (simp add: first)
  have "cacheFirst (\<lambda>u. Resolves varying_css) [] css_request =
      (Responds varying_css, caches_open [] STATIC_CACHE)"
    using refused empty varying_css_refused by blast
  then have not_stored: "cacheFirst (\<lambda>u. Resolves varying_css) [] css_request =
      (Responds varying_css, [(STATIC_CACHE, [])])"
    by (simp add: opened)
  have "cacheFirst (\<lambda>u. Hangs) storage_css_in_dynamic css_request =
     (Responds old_css, storage_css_in_dynamic)"
    using hit caches_match_css_in_dynamic by blast
  moreover have "cacheFirst (\<lambda>u. Rejects) [] css_request = (Responds offline_response, []) \<and>
      status offline_response = 503"
    using down empty by blast
  ultimately show ?thesis
    using caches_match_css_in_dynamic empty ok_new_css first again not_stored
      css_request_get_https new_css_storable varying_css_refused
    by simp
qed

text \<open>
  C2 at the failing input: an empty storage and a network that rejects every fetch.
  Cache first and network first answer with the 503 sentinel; stale-while-revalidate
  settles to \<^verbatim>\<open>null\<close>, which is not a response.
\<close>

theorem staleWhileRevalidate_offline_miss:
  "staleWhileRevalidate (\<lambda>u. Rejects) [] page_request = (ResolvesNull, [(DYNAMIC_CACHE, [])]) \<and>
   fetch_listener (\<lambda>u. Rejects) [] page_request = Some (ResolvesNull, [(DYNAMIC_CACHE, [])]) \<and>
   cacheFirst (\<lambda>u. Rejects) [] css_request = (Responds offline_response, []) \<and>
   networkFirst (\<lambda>u. Rejects) [] json_on_cdn = (Responds offline_response, [])"
proof -
  have swr: "staleWhileRevalidate (\<lambda>u. Rejects) [] page_request =
      (ResolvesNull, [(DYNAMIC_CACHE, [])])"
    by (simp add: staleWhileRevalidate_def networkResponsePromise_def Let_def caches_open_def
        caches_has_def the_cache_def cache_match_def)
  then have "fetch_listener (\<lambda>u. Rejects) [] page_request =
      Some (ResolvesNull, [(DYNAMIC_CACHE, [])])"
    using page_request_eligible page_request_strategy
    by (simp add: fetch_listener_def respondWith_def)
  moreover have "cacheFirst (\<lambda>u. Rejects) [] css_request = (Responds offline_response, [])"
    by (simp add: cacheFirst_def)
  ultimately show ?thesis
    using swr networkFirst_json_on_cdn_offline by simp
qed

section \<open>Install and activate: what they leave in the storage\<close>

lemma foldl_caches_delete:
  "foldl (\<lambda>s cacheName.
            if cacheName \<noteq> STATIC_CACHE \<and> cacheName \<noteq> DYNAMIC_CACHE
            then caches_delete s cacheName
            else s) st names =
   filter (\<lambda>e. fst e = STATIC_CACHE \<or> fst e = DYNAMIC_CACHE \<or> fst e \<notin> set names) st"
proof (induction names arbitrary: st)
  case Nil
  then show ?case by simp
next
  case (Cons n names)
  show ?case
    by (auto simp: Cons.IH caches_delete_def intro: filter_cong)
qed

lemma activate_storage_filter:
  "activate_storage (activate st) =
     filter (\<lambda>e. fst e = STATIC_CACHE \<or> fst e = DYNAMIC_CACHE) st"
proof -
  have "filter (\<lambda>e. fst e = STATIC_CACHE \<or> fst e = DYNAMIC_CACHE \<or> fst e \<notin> set (map fst st)) st =
        filter (\<lambda>e. fst e = STATIC_CACHE \<or> fst e = DYNAMIC_CACHE) st"
    by (rule filter_cong) auto
  then show ?thesis
    by (simp add: activate_def foldl_caches_delete caches_keys_def)
qed

lemma map_of_filter_names:
  "map_of (filter (\<lambda>e. P (fst e)) st) n = (if P n then map_of st n else None)"
  by (induction st) auto

lemma entry_activate:
  "entry (activate_storage (activate st)) n k =
     (if n = STATIC_CACHE \<or> n = DYNAMIC_CACHE then entry st n k else None)"
  using map_of_filter_names [of "\<lambda>m. m = STATIC_CACHE \<or> m = DYNAMIC_CACHE" st n]
  by (simp add: activate_storage_filter entry_def the_cache_def cache_match_def)

text \<open>
  C5. After activate, a namespace that existed before still exists if and only if its
  name is the current static or the current dynamic name; every other namespace is
  deleted, none is created, and the two current namespaces hold what they held. The
  step always succeeds (the promise handed to \<^verbatim>\<open>waitUntil\<close> is fulfilled), also on
  the empty storage of a first run, which it leaves empty.
\<close>

theorem activate_keeps_exactly_current:
  "(\<forall>N \<in> set (caches_keys st).
      N \<in> set (caches_keys (activate_storage (activate st))) \<longleftrightarrow>
      (N = STATIC_CACHE \<or> N = DYNAMIC_CACHE)) \<and>
   set (caches_keys (activate_storage (activate st))) \<subseteq> set (caches_keys st) \<and>
   (\<forall>k. entry (activate_storage (activate st)) STATIC_CACHE k = entry st STATIC_CACHE k) \<and>
   (\<forall>k. entry (activate_storage (activate st)) DYNAMIC_CACHE k = entry st DYNAMIC_CACHE k) \<and>
   activate_waitUntil (activate st) = Fulfilled \<and>
   activate [] = \<lparr>activate_storage = [], activate_waitUntil = Fulfilled, claim_called = True\<rparr>"
proof -
  have "activate_waitUntil (activate st) = Fulfilled"
    and "activate [] = \<lparr>activate_storage = [], activate_waitUntil = Fulfilled, claim_called = True\<rparr>"
    by (simp_all add: activate_def caches_keys_def)
  moreover have "\<forall>N \<in> set (caches_keys st).
      N \<in> set (caches_keys (activate_storage (activate st))) \<longleftrightarrow>
      (N = STATIC_CACHE \<or> N = DYNAMIC_CACHE)"
    by (auto simp: activate_storage_filter caches_keys_def)
  moreover have "set (caches_keys (activate_storage (activate st))) \<subseteq> set (caches_keys st)"
    by (auto simp: activate_storage_filter caches_keys_def)
  ultimately show ?thesis
    by (simp add: entry_activate)
qed

theorem activate_keeps_exactly_current_witness:
  "caches_keys storage_with_old_generation =
     [''mcp-static-v0'', STATIC_CACHE, ''mcp-docs-v1'', DYNAMIC_CACHE] \<and>
   caches_keys (activate_storage (activate storage_with_old_generation)) =
     [STATIC_CACHE, DYNAMIC_CACHE] \<and>
   ''mcp-static-v0'' \<notin> set (caches_keys (activate_storage (activate storage_with_old_generation))) \<and>
   ''mcp-docs-v1'' \<notin> set (caches_keys (activate_storage (activate storage_with_old_generation))) \<and>
   STATIC_CACHE \<in> set (caches_keys (activate_storage (activate storage_with_old_generation))) \<and>
   DYNAMIC_CACHE \<in> set (caches_keys (activate_storage (activate storage_with_old_generation)))"
proof -
  have before: "caches_keys storage_with_old_generation =
     [''mcp-static-v0'', STATIC_CACHE, ''mcp-docs-v1'', DYNAMIC_CACHE]"
    by (simp add: caches_keys_def storage_with_old_generation_def)
  have after: "caches_keys (activate_storage (activate storage_with_old_generation)) =
     [STATIC_CACHE, DYNAMIC_CACHE]"
    by (simp add: activate_def caches_keys_def storage_with_old_generation_def caches_delete_def
        STATIC_CACHE_def DYNAMIC_CACHE_def)
  have old: "''mcp-static-v0'' \<noteq> STATIC_CACHE \<and> ''mcp-static-v0'' \<noteq> DYNAMIC_CACHE \<and>
      ''mcp-docs-v1'' \<noteq> STATIC_CACHE \<and> ''mcp-docs-v1'' \<noteq> DYNAMIC_CACHE"
    by (simp add: STATIC_CACHE_def DYNAMIC_CACHE_def)
  note th = activate_keeps_exactly_current [of storage_with_old_generation]
  from th before old
  have "''mcp-static-v0'' \<notin> set (caches_keys (activate_storage (activate storage_with_old_generation)))"
    and "''mcp-docs-v1'' \<notin> set (caches_keys (activate_storage (activate storage_with_old_generation)))"
    and "STATIC_CACHE \<in> set (caches_keys (activate_storage (activate storage_with_old_generation)))"
    and "DYNAMIC_CACHE \<in> set (caches_keys (activate_storage (activate storage_with_old_generation)))"
    by simp_all
  then show ?thesis
    using before after by simp
qed








lemma the_cache_replace_open:
  "the_cache (cache_op n (\<lambda>c. c') (caches_open st n)) m =
     (if m = n then c' else the_cache st m)"
  by (simp add: the_cache_cache_op caches_has_open the_cache_open)









section \<open>The expiry sweep: which entries it deletes\<close>

lemma sweep_step:
  assumes "cache_match c k = Some r"
  shows "sweep date_parse threshold (k # ks) c =
     sweep date_parse threshold ks
       (if older_than date_parse threshold r then cache_delete c k else c)"
  using assms
  by (simp add: older_than_def capture_timestamp_def split: option.splits)

lemma cache_match_distinct:
  assumes "distinct (cache_keys c)" and "e \<in> set c"
  shows "cache_match c (fst e) = Some (snd e)"
  using assms by (simp add: cache_match_def cache_keys_def)

lemma sweep_filter:
  assumes "distinct (cache_keys c)" and "distinct ks" and "set ks \<subseteq> set (cache_keys c)"
  shows "sweep date_parse threshold ks c =
     Inr (filter (\<lambda>e. fst e \<notin> set ks \<or> \<not> older_than date_parse threshold (snd e)) c)"
  using assms
proof (induction ks arbitrary: c)
  case Nil
  then show ?case by simp
next
  case (Cons k ks)
  from Cons.prems(3) obtain r where r: "(k, r) \<in> set c"
    by (auto simp: cache_keys_def)
  with Cons.prems(1) have match: "cache_match c k = Some r"
    using cache_match_distinct [of c "(k, r)"] by simp
  have only: "snd e = r" if "e \<in> set c" "fst e = k" for e
    using cache_match_distinct [OF Cons.prems(1) that(1)] that(2) match by simp
  show ?case
  proof (cases "older_than date_parse threshold r")
    case True
    let ?c = "cache_delete c k"
    have "distinct (cache_keys ?c)"
      using Cons.prems(1) by (simp add: cache_keys_def cache_delete_def distinct_map_filter)
    moreover have "set ks \<subseteq> set (cache_keys ?c)"
    proof
      fix x
      assume x: "x \<in> set ks"
      with Cons.prems(3) obtain e where "e \<in> set c" "fst e = x"
        by (auto simp: cache_keys_def)
      moreover from x Cons.prems(2) have "x \<noteq> k" by auto
      ultimately have "e \<in> set ?c" by (simp add: cache_delete_def)
      with \<open>fst e = x\<close> show "x \<in> set (cache_keys ?c)"
        by (force simp: cache_keys_def)
    qed
    ultimately have "sweep date_parse threshold ks ?c =
        Inr (filter (\<lambda>e. fst e \<notin> set ks \<or> \<not> older_than date_parse threshold (snd e)) ?c)"
      using Cons.IH [of ?c] Cons.prems(2) by simp
    moreover have "filter (\<lambda>e. fst e \<notin> set ks \<or> \<not> older_than date_parse threshold (snd e)) ?c =
        filter (\<lambda>e. fst e \<notin> set (k # ks) \<or> \<not> older_than date_parse threshold (snd e)) c"
      unfolding cache_delete_def filter_filter
      by (rule filter_cong) (use True only in auto)
    ultimately show ?thesis
      by (simp only: sweep_step [OF match] True if_True)
  next
    case False
    have "sweep date_parse threshold ks c =
        Inr (filter (\<lambda>e. fst e \<notin> set ks \<or> \<not> older_than date_parse threshold (snd e)) c)"
      using Cons.IH [of c] Cons.prems by simp
    moreover have "filter (\<lambda>e. fst e \<notin> set ks \<or> \<not> older_than date_parse threshold (snd e)) c =
        filter (\<lambda>e. fst e \<notin> set (k # ks) \<or> \<not> older_than date_parse threshold (snd e)) c"
      by (rule filter_cong) (use False only in auto)
    ultimately show ?thesis
      by (simp only: sweep_step [OF match] False if_False)
  qed
qed

lemma sweep_all:
  assumes "distinct (cache_keys c)"
  shows "sweep date_parse threshold (cache_keys c) c =
     Inr (filter (\<lambda>e. \<not> older_than date_parse threshold (snd e)) c)"
proof -
  have "filter (\<lambda>e. fst e \<notin> set (cache_keys c) \<or> \<not> older_than date_parse threshold (snd e)) c =
      filter (\<lambda>e. \<not> older_than date_parse threshold (snd e)) c"
    by (rule filter_cong) (auto simp: cache_keys_def)
  then show ?thesis
    using sweep_filter [OF assms assms, of date_parse threshold] by simp
qed

lemma cache_match_filter_distinct:
  assumes "distinct (cache_keys c)"
  shows "cache_match (filter (\<lambda>e. P (snd e)) c) k =
     (case cache_match c k of
        None \<Rightarrow> None
      | Some r \<Rightarrow> if P r then Some r else None)"
  using assms
proof (induction c)
  case Nil
  then show ?case by (simp add: cache_match_def)
next
  case (Cons e c)
  obtain k' r' where e: "e = (k', r')" by (cases e)
  from Cons.prems have nk: "map_of c k' = None"
    by (simp add: e cache_keys_def map_of_eq_None_iff)
  from Cons have IH: "map_of (filter (\<lambda>e. P (snd e)) c) k =
     (case map_of c k of None \<Rightarrow> None | Some r \<Rightarrow> if P r then Some r else None)"
    by (simp add: cache_keys_def cache_match_def)
  show ?case
    using nk IH by (auto simp: e cache_match_def split: option.splits)
qed

lemma cleanupCaches_filter:
  assumes "distinct (cache_keys (the_cache st DYNAMIC_CACHE))"
  shows "cleanupCaches date_parse now st =
     Inr (cache_op DYNAMIC_CACHE
            (\<lambda>c. filter (\<lambda>e. \<not> older_than date_parse (now - 604800000) (snd e))
                   (the_cache st DYNAMIC_CACHE))
            (caches_open st DYNAMIC_CACHE))"
  by (simp add: cleanupCaches_def Let_def the_cache_open sweep_all [OF assms])

text \<open>
  C7. One run of the sweep (on a dynamic namespace with one entry per key, as a cache
  has) returns normally, and for every entry of the dynamic namespace: the entry is
  absent afterwards if and only if its capture timestamp is strictly older than now
  minus 7 days (604800000 ms); an entry at or after the threshold, or with no timestamp
  that can be read, is kept as it is. Keys that had no entry have none afterwards, and
  the other namespaces are untouched.
\<close>

theorem cleanupCaches_deletes_exactly_expired:
  assumes "distinct (cache_keys (the_cache st DYNAMIC_CACHE))"
  shows "\<exists>st'. cleanupCaches date_parse now st = Inr st' \<and>
     (\<forall>k r. entry st DYNAMIC_CACHE k = Some r \<longrightarrow>
        (entry st' DYNAMIC_CACHE k = None \<longleftrightarrow> older_than date_parse (now - 604800000) r) \<and>
        (\<not> older_than date_parse (now - 604800000) r \<longrightarrow> entry st' DYNAMIC_CACHE k = Some r)) \<and>
     (\<forall>k. entry st DYNAMIC_CACHE k = None \<longrightarrow> entry st' DYNAMIC_CACHE k = None) \<and>
     (\<forall>n k. n \<noteq> DYNAMIC_CACHE \<longrightarrow> entry st' n k = entry st n k)"
proof -
  let ?keep = "\<lambda>r. \<not> older_than date_parse (now - 604800000) r"
  let ?st' = "cache_op DYNAMIC_CACHE
            (\<lambda>c. filter (\<lambda>e. ?keep (snd e)) (the_cache st DYNAMIC_CACHE))
            (caches_open st DYNAMIC_CACHE)"
  have dyn: "entry ?st' DYNAMIC_CACHE k =
      (case entry st DYNAMIC_CACHE k of
         None \<Rightarrow> None
       | Some r \<Rightarrow> if ?keep r then Some r else None)" for k
    using cache_match_filter_distinct [OF assms, of ?keep k]
    by (simp add: entry_def the_cache_replace_open)
  have other: "n \<noteq> DYNAMIC_CACHE \<Longrightarrow> entry ?st' n k = entry st n k" for n k
    by (simp add: entry_def the_cache_replace_open)
  have "cleanupCaches date_parse now st = Inr ?st'"
    using assms by (rule cleanupCaches_filter)
  moreover have "\<forall>k r. entry st DYNAMIC_CACHE k = Some r \<longrightarrow>
        (entry ?st' DYNAMIC_CACHE k = None \<longleftrightarrow> older_than date_parse (now - 604800000) r) \<and>
        (\<not> older_than date_parse (now - 604800000) r \<longrightarrow> entry ?st' DYNAMIC_CACHE k = Some r)"
    by (simp add: dyn)
  moreover have "\<forall>k. entry st DYNAMIC_CACHE k = None \<longrightarrow> entry ?st' DYNAMIC_CACHE k = None"
    by (simp add: dyn)
  ultimately show ?thesis
    using other by blast
qed

lemma storage_three_ages_distinct:
  "distinct (cache_keys (the_cache storage_three_ages DYNAMIC_CACHE))"
  by (simp add: storage_three_ages_def the_cache_def cache_keys_def STATIC_CACHE_def
      DYNAMIC_CACHE_def)

lemma storage_three_ages_entries:
  "entry storage_three_ages DYNAMIC_CACHE ''/before'' = Some (dated ''Tue, 07 Nov 2023 22:13:19 GMT'')"
  "entry storage_three_ages DYNAMIC_CACHE ''/at'' = Some (dated ''Tue, 07 Nov 2023 22:13:20 GMT'')"
  "entry storage_three_ages DYNAMIC_CACHE ''/after'' = Some (dated ''Tue, 07 Nov 2023 22:13:21 GMT'')"
  by (simp_all add: storage_three_ages_def entry_def the_cache_def cache_match_def
      STATIC_CACHE_def DYNAMIC_CACHE_def)

lemma three_ages:
  "older_than demo_date_parse (1700000000000 - 604800000) (dated ''Tue, 07 Nov 2023 22:13:19 GMT'')"
  "\<not> older_than demo_date_parse (1700000000000 - 604800000) (dated ''Tue, 07 Nov 2023 22:13:20 GMT'')"
  "\<not> older_than demo_date_parse (1700000000000 - 604800000) (dated ''Tue, 07 Nov 2023 22:13:21 GMT'')"
  by (simp_all add: older_than_def capture_timestamp_def dated_def demo_date_parse_def)

text \<open>The witness has entries one second before the threshold, at the threshold and one
  second after it.\<close>

theorem cleanupCaches_deletes_exactly_expired_witness:
  "distinct (cache_keys (the_cache storage_three_ages DYNAMIC_CACHE)) \<and>
   (\<exists>st'. cleanupCaches demo_date_parse 1700000000000 storage_three_ages = Inr st' \<and>
      entry st' DYNAMIC_CACHE ''/before'' = None \<and>
      entry st' DYNAMIC_CACHE ''/at'' = Some (dated ''Tue, 07 Nov 2023 22:13:20 GMT'') \<and>
      entry st' DYNAMIC_CACHE ''/after'' = Some (dated ''Tue, 07 Nov 2023 22:13:21 GMT''))"
proof -
  obtain st' where run: "cleanupCaches demo_date_parse 1700000000000 storage_three_ages = Inr st'"
    and swept: "\<forall>k r. entry storage_three_ages DYNAMIC_CACHE k = Some r \<longrightarrow>
        (entry st' DYNAMIC_CACHE k = None \<longleftrightarrow>
           older_than demo_date_parse (1700000000000 - 604800000) r) \<and>
        (\<not> older_than demo_date_parse (1700000000000 - 604800000) r \<longrightarrow>
           entry st' DYNAMIC_CACHE k = Some r)"
    using cleanupCaches_deletes_exactly_expired
      [OF storage_three_ages_distinct, of demo_date_parse 1700000000000]
    by blast
  from swept storage_three_ages_entries(1) three_ages(1)
  have "entry st' DYNAMIC_CACHE ''/before'' = None" by blast
  moreover from swept storage_three_ages_entries(2) three_ages(2)
  have "entry st' DYNAMIC_CACHE ''/at'' = Some (dated ''Tue, 07 Nov 2023 22:13:20 GMT'')"
    by blast
  moreover from swept storage_three_ages_entries(3) three_ages(3)
  have "entry st' DYNAMIC_CACHE ''/after'' = Some (dated ''Tue, 07 Nov 2023 22:13:21 GMT'')"
    by blast
  ultimately show ?thesis
    using run storage_three_ages_distinct by blast
qed

section \<open>Notifications: the URL a click opens\<close>

lemma push_listener_no_data: "push_listener (Some payload) = Some n \<Longrightarrow> n_data n = None"
  by (auto simp: push_listener_def)

text \<open>
  C9 at the failing input: a push payload that carries the URL \<^verbatim>\<open>/news/42\<close>. The push
  listener gives \<^verbatim>\<open>showNotification\<close> no \<^verbatim>\<open>data\<close> option, so the notification's
  \<^verbatim>\<open>data\<close> is \<^verbatim>\<open>null\<close> and the click listener opens the root.
\<close>

theorem push_then_click_opens_root:
  "p_url news_payload = Some ''/news/42'' \<and>
   map_option n_data (push_listener (Some news_payload)) = Some None \<and>
   map_option notificationclick (push_listener (Some news_payload)) = Some ''/''"
  by (simp add: push_listener_def notificationclick_def news_payload_def)

end
